theory Spec2Isabelle
  imports Main
begin

section \<open>Strings\<close>

text \<open>
  Paths, names and ignore-file lines are strings of code units; the model takes them
  below 256, so a JavaScript string is a \<open>char list\<close>. The helpers below are the
  string methods the source calls, with the behaviour of the JavaScript built-ins.
\<close>

definition LF :: char where "LF = CHR 0x0A"
definition CR :: char where "CR = CHR 0x0D"
definition backslash :: char where "backslash = CHR 0x5C"

text \<open>\<open>String.prototype.split(sep)\<close> for a one-character separator: the result is
  never empty, and an empty string splits into one empty piece.\<close>

fun split :: "char \<Rightarrow> string \<Rightarrow> string list" where
  "split sep [] = [[]]"
| "split sep (x # xs) =
     (if x = sep then [] # split sep xs
      else (case split sep xs of [] \<Rightarrow> [[x]] | p # ps \<Rightarrow> (x # p) # ps))"

text \<open>\<open>Array.prototype.join(sep)\<close>, on any element type: the regular expression
  fragments are joined the same way as strings are.\<close>

fun join :: "'a list \<Rightarrow> 'a list list \<Rightarrow> 'a list" where
  "join sep [] = []"
| "join sep [p] = p"
| "join sep (p # q # ps) = p @ sep @ join sep (q # ps)"

text \<open>\<open>content.split(/\r?\n/)\<close>: a line ends at LF, or at CR LF.\<close>

fun splitLines :: "string \<Rightarrow> string list" where
  "splitLines [] = [[]]"
| "splitLines [x] = (if x = LF then [[], []] else [[x]])"
| "splitLines (x # y # rest) =
     (if x = LF then [] # splitLines (y # rest)
      else if x = CR \<and> y = LF then [] # splitLines rest
      else (case splitLines (y # rest) of [] \<Rightarrow> [[x]] | p # ps \<Rightarrow> (x # p) # ps))"

text \<open>The white space and line terminators that \<open>trim\<close> removes, below 256:
  TAB, LF, VT, FF, CR, space and the no-break space.\<close>

definition isWhiteSpace :: "char \<Rightarrow> bool" where
  "isWhiteSpace c \<longleftrightarrow>
     c \<in> {CHR 0x09, CHR 0x0A, CHR 0x0B, CHR 0x0C, CHR 0x0D, CHR 0x20, CHR 0xA0}"

definition trim :: "string \<Rightarrow> string" where
  "trim s = rev (dropWhile isWhiteSpace (rev (dropWhile isWhiteSpace s)))"

definition startsWith :: "string \<Rightarrow> char \<Rightarrow> bool" where
  "startsWith s c = (case s of [] \<Rightarrow> False | x # _ \<Rightarrow> x = c)"

definition endsWith :: "string \<Rightarrow> char \<Rightarrow> bool" where
  "endsWith s c = (case rev s of [] \<Rightarrow> False | x # _ \<Rightarrow> x = c)"

section \<open>Regular expressions\<close>

text \<open>
  \<open>patternToRegExp\<close> builds the text of a regular expression from a fixed stock of
  fragments and hands it to \<open>new RegExp\<close>. The model builds the parsed expression: a
  sequence of the nodes below, one per fragment.
  \<^item> \<open>Lit c\<close>: the character \<open>c\<close>, escaped by \<open>escapeRegExp\<close> where it is special;
  \<^item> \<open>One NonSlash\<close>: \<open>[^/]\<close>; \<open>Many NonSlash\<close>: \<open>[^/]*\<close>; \<open>Many AnyChar\<close>: \<open>.*\<close>;
  \<^item> \<open>Opt g\<close>: \<open>(?:g)?\<close>;
  \<^item> \<open>Bol\<close>: \<open>^\<close>; \<open>Eol\<close>: \<open>$\<close>; \<open>BolOrSlash\<close>: \<open>(?:^|/)\<close>.
  The expression has no flags: \<open>.\<close> does not match a line terminator, and \<open>^\<close> and
  \<open>$\<close> match only at the two ends of the input.
\<close>

datatype cclass = AnyChar | NonSlash

datatype rxnode =
    Lit char
  | One cclass
  | Many cclass
  | Opt "rxnode list"
  | Bol
  | Eol
  | BolOrSlash

type_synonym RegExp = "rxnode list"

fun inClass :: "cclass \<Rightarrow> char \<Rightarrow> bool" where
  "inClass AnyChar c = (c \<noteq> LF \<and> c \<noteq> CR)"
| "inClass NonSlash c = (c \<noteq> CHR ''/'')"

text \<open>\<open>matchesAt r atStart s\<close>: the expression \<open>r\<close> matches some prefix of the rest
  \<open>s\<close> of the input; \<open>atStart\<close> says whether the rest is the whole input. Every
  alternative of the backtracking search is tried.\<close>

function matchesAt :: "RegExp \<Rightarrow> bool \<Rightarrow> string \<Rightarrow> bool" where
  "matchesAt [] atStart s = True"
| "matchesAt (Lit c # r) atStart s =
     (case s of [] \<Rightarrow> False | x # s' \<Rightarrow> x = c \<and> matchesAt r False s')"
| "matchesAt (One cc # r) atStart s =
     (case s of [] \<Rightarrow> False | x # s' \<Rightarrow> inClass cc x \<and> matchesAt r False s')"
| "matchesAt (Many cc # r) atStart s =
     (matchesAt r atStart s \<or>
      (case s of [] \<Rightarrow> False | x # s' \<Rightarrow> inClass cc x \<and> matchesAt (Many cc # r) False s'))"
| "matchesAt (Opt g # r) atStart s = (matchesAt (g @ r) atStart s \<or> matchesAt r atStart s)"
| "matchesAt (Bol # r) atStart s = (atStart \<and> matchesAt r atStart s)"
| "matchesAt (Eol # r) atStart s = (s = [] \<and> matchesAt r atStart s)"
| "matchesAt (BolOrSlash # r) atStart s =
     ((atStart \<and> matchesAt r atStart s) \<or>
      (case s of [] \<Rightarrow> False | x # s' \<Rightarrow> x = CHR ''/'' \<and> matchesAt r False s'))"
  by pat_completeness auto
termination
  by (relation "measures [\<lambda>(r, _, _). size_list size r, \<lambda>(_, _, s). length s]") auto

text \<open>\<open>RegExp.prototype.test\<close>: a match may start at any position of the input.\<close>

fun testFrom :: "RegExp \<Rightarrow> bool \<Rightarrow> string \<Rightarrow> bool" where
  "testFrom r atStart s =
     (matchesAt r atStart s \<or> (case s of [] \<Rightarrow> False | _ # s' \<Rightarrow> testFrom r False s'))"

definition test :: "RegExp \<Rightarrow> string \<Rightarrow> bool" where
  "test r s = testFrom r True s"

section \<open>Ignore rules\<close>

record GitignoreRule =
  pattern :: string
  isNegated :: bool
  onlyDir :: bool
  anchored :: bool
  baseDir :: string
  regex :: RegExp
  original :: string

type_synonym RulesMap = "string \<rightharpoonup> GitignoreRule list"

text \<open>\<open>escapeRegExp\<close> puts a backslash before each special character, which makes it a
  literal: every character of the string becomes a \<open>Lit\<close>.\<close>

definition escapeRegExp :: "string \<Rightarrow> RegExp" where
  "escapeRegExp str = map Lit str"

definition charRegex :: "char \<Rightarrow> RegExp" where
  "charRegex c =
     (if c = CHR ''*'' then [Many NonSlash]
      else if c = CHR ''?'' then [One NonSlash]
      else escapeRegExp [c])"

definition segmentRegex :: "string \<Rightarrow> RegExp" where
  "segmentRegex seg =
     (if seg = ''**'' then [Opt [Many AnyChar, Lit (CHR ''/'')]]
      else concat (map charRegex seg))"

definition patternToRegExp :: "string \<Rightarrow> bool \<Rightarrow> string \<Rightarrow> bool \<Rightarrow> RegExp" where
  "patternToRegExp pat anch base dirOnly =
     (let segments = split (CHR ''/'') pat;
          regexParts = map segmentRegex segments;
          tail = (if dirOnly then [Opt [Lit (CHR ''/''), Many AnyChar], Eol] else [Eol])
      in if anch then
           (let basePath = (if base = ''.'' then '''' else base @ ''/'')
            in [Bol] @ escapeRegExp basePath @ join [Lit (CHR ''/'')] regexParts @ tail)
         else [BolOrSlash] @ join [Lit (CHR ''/'')] regexParts @ tail)"

text \<open>\<open>line.replace(/\\([\\!*?[\]{}()])/g, "$1")\<close>: a backslash followed by one of the
  listed characters is dropped, and the scan goes on after that character.\<close>

definition escapable :: "char \<Rightarrow> bool" where
  "escapable c \<longleftrightarrow> c \<in> set (backslash # ''!*?[]{}()'')"

fun unescape :: "string \<Rightarrow> string" where
  "unescape [] = []"
| "unescape [x] = [x]"
| "unescape (x # y # rest) =
     (if x = backslash \<and> escapable y then y # unescape rest else x # unescape (y # rest))"

text \<open>The body of the loop over the lines of an ignore file: \<open>None\<close> is the
  \<open>continue\<close> of a blank line or a comment, \<open>Some\<close> the rule pushed.\<close>

definition parseLine :: "string \<Rightarrow> string \<Rightarrow> GitignoreRule option" where
  "parseLine relativeDirPosix originalRaw =
     (let raw = trim originalRaw in
      if raw = [] \<or> startsWith raw (CHR ''#'') then None
      else
        let neg = startsWith raw (CHR ''!'');
            line1 = (if neg then tl raw else raw);
            line2 = unescape line1;
            dirOnly = endsWith line2 (CHR ''/'');
            line3 = (if dirOnly then butlast line2 else line2);
            anch = startsWith line3 (CHR ''/'');
            line4 = (if anch then tl line3 else line3);
            pat = map (\<lambda>c. if c = backslash then CHR ''/'' else c) line4
        in Some \<lparr> pattern = pat, isNegated = neg, onlyDir = dirOnly, anchored = anch,
                  baseDir = relativeDirPosix,
                  regex = patternToRegExp pat anch relativeDirPosix dirOnly,
                  original = originalRaw \<rparr>)"

text \<open>\<open>loadIgnoreRules\<close>, given what reading the file gave: \<open>None\<close> when the file is
  absent or cannot be read (both return no rules), else its text.\<close>

definition loadIgnoreRules :: "string option \<Rightarrow> string \<Rightarrow> GitignoreRule list" where
  "loadIgnoreRules fileContent relativeDirPosix =
     (case fileContent of
        None \<Rightarrow> []
      | Some content \<Rightarrow> List.map_filter (parseLine relativeDirPosix) (splitLines content))"

section \<open>Matcher\<close>

text \<open>The debug line that \<open>matchRule\<close> prints in verbose mode is not part of its
  result.\<close>

definition matchRule :: "string \<Rightarrow> GitignoreRule \<Rightarrow> bool \<Rightarrow> bool" where
  "matchRule relativePathPosix rule isDir =
     (if onlyDir rule \<and> \<not> isDir then False else test (regex rule) relativePathPosix)"

definition isIgnored :: "string \<Rightarrow> bool \<Rightarrow> GitignoreRule list \<Rightarrow> bool" where
  "isIgnored relativePathPosix isDir rules =
     foldl (\<lambda>ignored rule.
              if matchRule relativePathPosix rule isDir then \<not> isNegated rule else ignored)
           False rules"

section \<open>Rule accumulator\<close>

record RulesAccumulator =
  gitignoreMap :: RulesMap
  gitkeepIgnoreMap :: RulesMap
  cache :: RulesMap

definition newRulesAccumulator :: "RulesMap \<Rightarrow> RulesMap \<Rightarrow> RulesAccumulator" where
  "newRulesAccumulator gi gk = \<lparr> gitignoreMap = gi, gitkeepIgnoreMap = gk, cache = Map.empty \<rparr>"

text \<open>One round of the loop of \<open>accumulate\<close>, for the index \<open>i\<close>: an absent table
  entry is \<open>undefined\<close>, which the \<open>if\<close> skips; a present one is pushed, also when
  it is an empty array.\<close>

definition accumulateStep ::
  "RulesAccumulator \<Rightarrow> string list \<Rightarrow> GitignoreRule list \<Rightarrow> nat \<Rightarrow> GitignoreRule list" where
  "accumulateStep acc parts accumulated i =
     (let dir = (if i = 0 then ''.'' else join ''/'' (take i parts));
          a1 = (case gitignoreMap acc dir of None \<Rightarrow> accumulated
                | Some gitignoreRules \<Rightarrow> accumulated @ gitignoreRules);
          a2 = (case gitkeepIgnoreMap acc dir of None \<Rightarrow> a1
                | Some gitkeepIgnoreRules \<Rightarrow> a1 @ gitkeepIgnoreRules)
      in a2)"

text \<open>\<open>accumulate\<close> returns the list and the accumulator with its cache updated.\<close>

definition accumulate ::
  "RulesAccumulator \<Rightarrow> string \<Rightarrow> GitignoreRule list \<times> RulesAccumulator" where
  "accumulate acc relativeDirPosix =
     (case cache acc relativeDirPosix of
        Some cached \<Rightarrow> (cached, acc)
      | None \<Rightarrow>
          let parts = (if relativeDirPosix = ''.'' then [] else split (CHR ''/'') relativeDirPosix);
              accumulated = foldl (accumulateStep acc parts) [] [0 ..< Suc (length parts)]
          in (accumulated, acc\<lparr> cache := (cache acc)(relativeDirPosix \<mapsto> accumulated) \<rparr>))"

text \<open>The accumulators a program can hold: a new one, and what calls of
  \<open>accumulate\<close> make of it.\<close>

inductive reachable :: "RulesMap \<Rightarrow> RulesMap \<Rightarrow> RulesAccumulator \<Rightarrow> bool" where
  fresh: "reachable gi gk (newRulesAccumulator gi gk)"
| call: "reachable gi gk acc \<Longrightarrow> reachable gi gk (snd (accumulate acc d))"

text \<open>The accumulated rule list as the specification words it: the chain of
  directories from the root to the directory, and for each of them its content rules,
  then its marker rules.\<close>

definition ancestorChain :: "string \<Rightarrow> string list" where
  "ancestorChain d =
     (let parts = (if d = ''.'' then [] else split (CHR ''/'') d)
      in ''.'' # map (\<lambda>i. join ''/'' (take i parts)) [1 ..< Suc (length parts)])"

definition rulesAt :: "RulesMap \<Rightarrow> RulesMap \<Rightarrow> string \<Rightarrow> GitignoreRule list" where
  "rulesAt gi gk dir =
     (case gi dir of None \<Rightarrow> [] | Some rs \<Rightarrow> rs) @ (case gk dir of None \<Rightarrow> [] | Some rs \<Rightarrow> rs)"

definition accumulatedRules :: "RulesMap \<Rightarrow> RulesMap \<Rightarrow> string \<Rightarrow> GitignoreRule list" where
  "accumulatedRules gi gk d = concat (map (rulesAt gi gk) (ancestorChain d))"

section \<open>Configuration, summary and file tree\<close>

text \<open>The fields of \<open>Config\<close> that the walker reads (\<open>root\<close> and \<open>reportFile\<close> belong to
  \<open>main\<close>). The source keeps the configuration in a global variable; here it is an
  argument.\<close>

record Config =
  dryRun :: bool
  verbose :: bool
  content :: string
  clean :: bool
  check :: bool
  excludeDirs :: "string list"
  gitkeepName :: string
  respectGitkeepIgnore :: bool

definition defaultConfig :: Config where
  "defaultConfig =
     \<lparr> dryRun = False, verbose = False, content = '''', clean = False, check = False,
       excludeDirs = [''.git'', ''node_modules'', ''.next'', ''dist'', ''build''],
       gitkeepName = ''.gitkeep'', respectGitkeepIgnore = True \<rparr>"

text \<open>An entry of \<open>summary.errors\<close>: which operation failed, and the directory or the
  marker concerned by its path below the root (the text of the system's error message
  is left out).\<close>

datatype diagnostic = ReaddirFailed string | CreateFailed string | RemoveFailed string

record Summary =
  created :: "string list"
  removed :: "string list"
  skipped :: "string list"
  errors :: "diagnostic list"

definition emptySummary :: Summary where
  "emptySummary = \<lparr> created = [], removed = [], skipped = [], errors = [] \<rparr>"

text \<open>What the walker prints with \<open>info\<close> (the two findings of check mode) and with
  \<open>log\<close> (the two notices of a dry run), each with the relative path it names. The
  \<open>debug\<close> lines, the \<open>warn\<close> that repeats each error and the \<open>success\<close> of verbose
  mode decide nothing and are not modelled.\<close>

datatype notice =
    EmptyWithoutMarker string
  | NonEmptyWithMarker string
  | DryRunCreate string
  | DryRunRemove string

text \<open>
  The file system under the root, as a tree. A directory carries whether \<open>readdir\<close>
  succeeds on it, whether creating and deleting an entry in it succeeds, and its
  entries in listing order; a file carries its text. Two kinds of entry are neither a
  file nor a directory for \<open>Dirent\<close>. \<open>Link\<close> is a symbolic link to a file outside the
  tree that can be read and written: it carries the text of that file, or \<open>None\<close> when
  the link dangles and the file is yet to be created. \<open>Other\<close> is any other such entry
  (a socket, a link to a directory), on which reading and writing fail.
\<close>

datatype fsnode =
    File string
  | Link "string option"
  | Other
  | Dir bool bool "(string \<times> fsnode) list"

fun isDirectory :: "fsnode \<Rightarrow> bool" where
  "isDirectory (Dir _ _ _) = True"
| "isDirectory _ = False"

fun isFile :: "fsnode \<Rightarrow> bool" where
  "isFile (File _) = True"
| "isFile _ = False"

fun isLink :: "fsnode \<Rightarrow> bool" where
  "isLink (Link _) = True"
| "isLink _ = False"

text \<open>
  \<open>fs.writeFile\<close> of a name in a directory opens the path for writing and follows a
  symbolic link. Where no entry has the name, the file is created, which the
  directory must allow. A file of that name is overwritten. A link of that name is
  written through: the write succeeds, the file it points to has the text, and the
  entry is still a link. On a directory and on any other entry the write fails.
  \<open>fs.unlink\<close>: succeeds in a directory that allows it when a file of that name is
  there, and removes it.
\<close>

definition writeFile ::
  "bool \<Rightarrow> string \<Rightarrow> string \<Rightarrow> (string \<times> fsnode) list \<Rightarrow> (string \<times> fsnode) list option" where
  "writeFile wr name text es =
     (case find (\<lambda>e. fst e = name) es of
        None \<Rightarrow> if wr then Some (es @ [(name, File text)]) else None
      | Some held \<Rightarrow>
          (case snd held of
             File _ \<Rightarrow>
               Some (map (\<lambda>e. if fst e = name \<and> isFile (snd e) then (name, File text) else e) es)
           | Link _ \<Rightarrow>
               Some (map (\<lambda>e. if fst e = name \<and> isLink (snd e) then (name, Link (Some text)) else e) es)
           | Other \<Rightarrow> None
           | Dir _ _ _ \<Rightarrow> None))"

definition unlink ::
  "bool \<Rightarrow> string \<Rightarrow> (string \<times> fsnode) list \<Rightarrow> (string \<times> fsnode) list option" where
  "unlink wr name es =
     (if wr \<and> list_ex (\<lambda>e. fst e = name \<and> isFile (snd e)) es
      then Some (filter (\<lambda>e. \<not> (fst e = name \<and> isFile (snd e))) es)
      else None)"

text \<open>A directory is named by its path components below the root. \<open>relativePosix\<close> is
  \<open>.\<close> for the root; \<open>path.basename\<close> of the root is the root's own name.\<close>

definition relativePosix :: "string list \<Rightarrow> string" where
  "relativePosix comps = (if comps = [] then ''.'' else join ''/'' comps)"

definition basename :: "string \<Rightarrow> string list \<Rightarrow> string" where
  "basename rootName comps = (if comps = [] then rootName else last comps)"

section \<open>Directory walker\<close>

record World =
  racc :: RulesAccumulator
  summary :: Summary
  console :: "notice list"

definition pushCreated :: "string \<Rightarrow> World \<Rightarrow> World" where
  "pushCreated p w = w\<lparr> summary := (summary w)\<lparr> created := created (summary w) @ [p] \<rparr> \<rparr>"

definition pushRemoved :: "string \<Rightarrow> World \<Rightarrow> World" where
  "pushRemoved p w = w\<lparr> summary := (summary w)\<lparr> removed := removed (summary w) @ [p] \<rparr> \<rparr>"

definition pushSkipped :: "string \<Rightarrow> World \<Rightarrow> World" where
  "pushSkipped p w = w\<lparr> summary := (summary w)\<lparr> skipped := skipped (summary w) @ [p] \<rparr> \<rparr>"

definition pushError :: "diagnostic \<Rightarrow> World \<Rightarrow> World" where
  "pushError e w = w\<lparr> summary := (summary w)\<lparr> errors := errors (summary w) @ [e] \<rparr> \<rparr>"

definition say :: "notice \<Rightarrow> World \<Rightarrow> World" where
  "say n w = w\<lparr> console := console w @ [n] \<rparr>"

text \<open>\<open>createGitkeep\<close> and \<open>removeGitkeep\<close>, on the entries of the directory
  \<open>comps\<close>; \<open>path.join(relativeDir, name)\<close> is the marker's path below the root.
  The marker name is taken to be a file name, one path component, as the default
  \<open>.gitkeep\<close> is.\<close>

definition createGitkeep ::
  "Config \<Rightarrow> string list \<Rightarrow> bool \<Rightarrow> (string \<times> fsnode) list \<Rightarrow> World
     \<Rightarrow> (string \<times> fsnode) list \<times> World" where
  "createGitkeep cfg comps wr es w =
     (let relativePath = relativePosix (comps @ [gitkeepName cfg]) in
      if dryRun cfg then (es, say (DryRunCreate relativePath) w)
      else (case writeFile wr (gitkeepName cfg) (content cfg) es of
              Some es' \<Rightarrow> (es', pushCreated relativePath w)
            | None \<Rightarrow> (es, pushError (CreateFailed relativePath) w)))"

definition removeGitkeep ::
  "Config \<Rightarrow> string list \<Rightarrow> bool \<Rightarrow> (string \<times> fsnode) list \<Rightarrow> World
     \<Rightarrow> (string \<times> fsnode) list \<times> World" where
  "removeGitkeep cfg comps wr es w =
     (let relativePath = relativePosix (comps @ [gitkeepName cfg]) in
      if dryRun cfg then (es, say (DryRunRemove relativePath) w)
      else (case unlink wr (gitkeepName cfg) es of
              Some es' \<Rightarrow> (es', pushRemoved relativePath w)
            | None \<Rightarrow> (es, pushError (RemoveFailed relativePath) w)))"

text \<open>The files of a listing that count: not the marker, and not ignored as a file
  under the directory's rules.\<close>

definition visibleFiles ::
  "Config \<Rightarrow> string list \<Rightarrow> GitignoreRule list \<Rightarrow> (string \<times> fsnode) list
     \<Rightarrow> (string \<times> fsnode) list" where
  "visibleFiles cfg comps rules files =
     filter (\<lambda>f. if fst f = gitkeepName cfg then False
                 else \<not> isIgnored (relativePosix (comps @ [fst f])) False rules) files"

text \<open>The second half of \<open>walkDirectory\<close>, after the loop over the subdirectories:
  \<open>dirEntries\<close> is the listing read before the loop, \<open>es\<close> the entries after it.\<close>

definition decideMarker ::
  "Config \<Rightarrow> string list \<Rightarrow> GitignoreRule list \<Rightarrow> bool \<Rightarrow> (string \<times> fsnode) list
     \<Rightarrow> bool \<Rightarrow> (string \<times> fsnode) list \<Rightarrow> World \<Rightarrow> bool \<times> fsnode \<times> World" where
  "decideMarker cfg comps rules wr dirEntries hasNonEmptySubdir es w =
     (let relativeDir = relativePosix comps;
          files = filter (\<lambda>d. isFile (snd d)) dirEntries;
          visible = visibleFiles cfg comps rules files;
          hasGitkeep = list_ex (\<lambda>f. fst f = gitkeepName cfg) files;
          isEmpty = (visible = [] \<and> \<not> hasNonEmptySubdir)
      in
      if clean cfg then
        (if hasGitkeep
         then (case removeGitkeep cfg comps wr es w of (es', w') \<Rightarrow> (isEmpty, Dir True wr es', w'))
         else (isEmpty, Dir True wr es, w))
      else if check cfg then
        (if isEmpty \<and> \<not> hasGitkeep then (isEmpty, Dir True wr es, say (EmptyWithoutMarker relativeDir) w)
         else if \<not> isEmpty \<and> hasGitkeep then (isEmpty, Dir True wr es, say (NonEmptyWithMarker relativeDir) w)
         else (isEmpty, Dir True wr es, w))
      else if isEmpty then
        (if \<not> hasGitkeep
         then (case createGitkeep cfg comps wr es w of (es', w') \<Rightarrow> (isEmpty, Dir True wr es', w'))
         else (isEmpty, Dir True wr es, w))
      else
        (if hasGitkeep
         then (case removeGitkeep cfg comps wr es w of (es', w') \<Rightarrow> (isEmpty, Dir True wr es', w'))
         else (isEmpty, Dir True wr es, w)))"

text \<open>
  \<open>walkDirectory\<close> returns the flag "this directory is empty", the directory as the
  walk leaves it, and the world. \<open>walkSubdirs\<close> is its loop over the subdirectories: it
  goes through the listing in order, walks each directory entry and leaves the other
  entries in place; its flag is \<open>hasNonEmptySubdir\<close>.
\<close>

fun walkDirectory ::
      "Config \<Rightarrow> string \<Rightarrow> string list \<Rightarrow> fsnode \<Rightarrow> World \<Rightarrow> bool \<times> fsnode \<times> World"
  and walkSubdirs ::
      "Config \<Rightarrow> string \<Rightarrow> string list \<Rightarrow> (string \<times> fsnode) list \<Rightarrow> World
         \<Rightarrow> bool \<times> (string \<times> fsnode) list \<times> World"
where
  "walkDirectory cfg rootName comps node w =
     (let relativeDir = relativePosix comps;
          dirName = basename rootName comps
      in
      if dirName \<in> set (excludeDirs cfg) then (True, node, w)
      else
        (case accumulate (racc w) relativeDir of (rules, acc') \<Rightarrow>
           let w1 = w\<lparr> racc := acc' \<rparr> in
           if isIgnored relativeDir True rules then (True, node, pushSkipped relativeDir w1)
           else
             (case node of
                Dir readable wr dirEntries \<Rightarrow>
                  if readable then
                    (case walkSubdirs cfg rootName comps dirEntries w1 of
                       (hasNonEmptySubdir, es, w2) \<Rightarrow>
                         decideMarker cfg comps rules wr dirEntries hasNonEmptySubdir es w2)
                  else (True, node, pushError (ReaddirFailed relativeDir) w1)
              | _ \<Rightarrow> (True, node, pushError (ReaddirFailed relativeDir) w1))))"
| "walkSubdirs cfg rootName comps [] w = (False, [], w)"
| "walkSubdirs cfg rootName comps (entry # rest) w =
     (if isDirectory (snd entry) then
        (case walkDirectory cfg rootName (comps @ [fst entry]) (snd entry) w of
           (subdirIsEmpty, node', w1) \<Rightarrow>
             (case walkSubdirs cfg rootName comps rest w1 of
                (hasNonEmptySubdir, rest', w2) \<Rightarrow>
                  ((if subdirIsEmpty then hasNonEmptySubdir else True),
                   (fst entry, node') # rest', w2)))
      else
        (case walkSubdirs cfg rootName comps rest w of
           (hasNonEmptySubdir, rest', w2) \<Rightarrow> (hasNonEmptySubdir, entry # rest', w2)))"

declare walkDirectory.simps [simp del]

text \<open>The world \<open>main\<close> starts the walk in: a new accumulator over the loaded tables
  and an empty summary.\<close>

definition initialWorld :: "RulesMap \<Rightarrow> RulesMap \<Rightarrow> World" where
  "initialWorld gi gk = \<lparr> racc = newRulesAccumulator gi gk, summary = emptySummary, console = [] \<rparr>"

section \<open>Rule table loader and the run of \<open>main\<close>\<close>

definition GITIGNORE_FILENAME :: string where
  "GITIGNORE_FILENAME = ''.gitignore''"

definition GITKEEP_IGNORE_FILENAME :: string where
  "GITKEEP_IGNORE_FILENAME = ''.gitkeepignore''"

text \<open>
  What \<open>loadIgnoreRules\<close> gets of the file \<open>filename\<close> of a directory: its text, read
  through a link, or \<open>None\<close> when \<open>fileExists\<close> is false or \<open>readFile\<close> fails. The file
  is reached by its path, so the listing of the directory is not needed.
\<close>

definition readIgnoreFile :: "fsnode \<Rightarrow> string \<Rightarrow> string option" where
  "readIgnoreFile dir filename =
     (case dir of
        Dir _ _ es \<Rightarrow>
          (case find (\<lambda>e. fst e = filename) es of
             None \<Rightarrow> None
           | Some held \<Rightarrow>
               (case snd held of File text \<Rightarrow> Some text | Link target \<Rightarrow> target | _ \<Rightarrow> None))
      | _ \<Rightarrow> None)"

definition loadGitignoreFromPath :: "fsnode \<Rightarrow> string \<Rightarrow> GitignoreRule list" where
  "loadGitignoreFromPath dir relativeDirPosix =
     loadIgnoreRules (readIgnoreFile dir GITIGNORE_FILENAME) relativeDirPosix"

definition loadGitkeepIgnoreFromPath :: "Config \<Rightarrow> fsnode \<Rightarrow> string \<Rightarrow> GitignoreRule list" where
  "loadGitkeepIgnoreFromPath cfg dir relativeDirPosix =
     (if respectGitkeepIgnore cfg
      then loadIgnoreRules (readIgnoreFile dir GITKEEP_IGNORE_FILENAME) relativeDirPosix
      else [])"

text \<open>
  \<open>recursiveLoad\<close> of \<open>loadAllIgnoreRules\<close>, with the two tables it fills passed along;
  \<open>loadSubdirs\<close> is its loop over the entries, which skips what is not a directory and
  the directories excluded by name.
\<close>

fun recursiveLoad ::
      "Config \<Rightarrow> fsnode \<Rightarrow> string \<Rightarrow> RulesMap \<times> RulesMap \<Rightarrow> RulesMap \<times> RulesMap"
  and loadSubdirs ::
      "Config \<Rightarrow> string \<Rightarrow> (string \<times> fsnode) list \<Rightarrow> RulesMap \<times> RulesMap
         \<Rightarrow> RulesMap \<times> RulesMap"
where
  "recursiveLoad cfg dir relativeDirPosix maps =
     (let gitignoreRules = loadGitignoreFromPath dir relativeDirPosix;
          maps1 = (if length gitignoreRules > 0
                   then ((fst maps)(relativeDirPosix \<mapsto> gitignoreRules), snd maps)
                   else maps);
          gitkeepIgnoreRules = loadGitkeepIgnoreFromPath cfg dir relativeDirPosix;
          maps2 = (if length gitkeepIgnoreRules > 0
                   then (fst maps1, (snd maps1)(relativeDirPosix \<mapsto> gitkeepIgnoreRules))
                   else maps1)
      in case dir of
           Dir readable wr dirEntries \<Rightarrow>
             if readable then loadSubdirs cfg relativeDirPosix dirEntries maps2 else maps2
         | _ \<Rightarrow> maps2)"
| "loadSubdirs cfg relativeDirPosix [] maps = maps"
| "loadSubdirs cfg relativeDirPosix (entry # rest) maps =
     (if isDirectory (snd entry) then
        (if fst entry \<in> set (excludeDirs cfg) then loadSubdirs cfg relativeDirPosix rest maps
         else
           loadSubdirs cfg relativeDirPosix rest
             (recursiveLoad cfg (snd entry)
                (if relativeDirPosix = ''.'' then fst entry else relativeDirPosix @ ''/'' @ fst entry)
                maps))
      else loadSubdirs cfg relativeDirPosix rest maps)"

declare recursiveLoad.simps [simp del]

definition loadAllIgnoreRules :: "Config \<Rightarrow> fsnode \<Rightarrow> RulesMap \<times> RulesMap" where
  "loadAllIgnoreRules cfg root = recursiveLoad cfg root ''.'' (Map.empty, Map.empty)"

text \<open>
  One run of the program on a tree, as \<open>main\<close> does it under a resolved configuration:
  load the rule tables from the tree, make a new accumulator and an empty summary,
  and walk the tree from the root.
\<close>

definition main :: "Config \<Rightarrow> string \<Rightarrow> fsnode \<Rightarrow> bool \<times> fsnode \<times> World" where
  "main cfg rootName root =
     (case loadAllIgnoreRules cfg root of
        (gi, gk) \<Rightarrow> walkDirectory cfg rootName [] root (initialWorld gi gk))"

section \<open>Notions for the properties\<close>

text \<open>The invariant of the accumulator: it holds the two tables, and every cached list is
  the accumulated list of its directory.\<close>

definition cacheOk :: "RulesMap \<Rightarrow> RulesMap \<Rightarrow> RulesAccumulator \<Rightarrow> bool" where
  "cacheOk gi gk acc \<longleftrightarrow>
     gitignoreMap acc = gi \<and> gitkeepIgnoreMap acc = gk \<and>
     (\<forall>d rs. cache acc d = Some rs \<longrightarrow> rs = accumulatedRules gi gk d)"

text \<open>\<open>readdir\<close> succeeds on a node: it is a directory that can be read.\<close>

fun listable :: "fsnode \<Rightarrow> bool" where
  "listable (Dir readable _ _) = readable"
| "listable _ = False"

text \<open>The two findings that check mode prints.\<close>

fun isCheckFinding :: "notice \<Rightarrow> bool" where
  "isCheckFinding (EmptyWithoutMarker _) = True"
| "isCheckFinding (NonEmptyWithMarker _) = True"
| "isCheckFinding _ = False"

text \<open>
  Emptiness as the specification words it, read off the tree alone: an excluded
  directory, an ignored directory and a directory that cannot be listed are empty; a
  listed directory is empty when it has no visible file and every subdirectory is
  empty.
\<close>

fun dirIsEmpty ::
      "Config \<Rightarrow> RulesMap \<Rightarrow> RulesMap \<Rightarrow> string \<Rightarrow> string list \<Rightarrow> fsnode \<Rightarrow> bool"
  and subdirsEmpty ::
      "Config \<Rightarrow> RulesMap \<Rightarrow> RulesMap \<Rightarrow> string \<Rightarrow> string list \<Rightarrow> (string \<times> fsnode) list \<Rightarrow> bool"
where
  "dirIsEmpty cfg gi gk rootName comps node =
     (if basename rootName comps \<in> set (excludeDirs cfg) then True
      else if isIgnored (relativePosix comps) True (accumulatedRules gi gk (relativePosix comps))
        then True
      else (case node of
              Dir readable wr dirEntries \<Rightarrow>
                if readable then
                  visibleFiles cfg comps (accumulatedRules gi gk (relativePosix comps))
                    (filter (\<lambda>d. isFile (snd d)) dirEntries) = []
                  \<and> subdirsEmpty cfg gi gk rootName comps dirEntries
                else True
            | _ \<Rightarrow> True))"
| "subdirsEmpty cfg gi gk rootName comps [] = True"
| "subdirsEmpty cfg gi gk rootName comps (entry # rest) =
     ((if isDirectory (snd entry) then dirIsEmpty cfg gi gk rootName (comps @ [fst entry]) (snd entry)
       else True)
      \<and> subdirsEmpty cfg gi gk rootName comps rest)"

declare dirIsEmpty.simps [simp del]






section \<open>Example data\<close>

text \<open>The rules of an ignore file with the two lines \<open>*.log\<close> and \<open>!keep.log\<close>.\<close>

definition logRules :: "GitignoreRule list" where
  "logRules = loadIgnoreRules (Some (''*.log'' @ [LF] @ ''!keep.log'')) ''.''"

text \<open>The rule that the line \<open>build/\<close> compiles to, in an ignore file of the
  directory \<open>d\<close>.\<close>

definition buildRule :: "string \<Rightarrow> GitignoreRule" where
  "buildRule d =
     \<lparr> pattern = ''build'', isNegated = False, onlyDir = True, anchored = False, baseDir = d,
       regex = patternToRegExp ''build'' False d True, original = ''build/'' \<rparr>"

text \<open>The rules of an ignore file with the one line \<open>!.gitkeep\<close>.\<close>

definition negMarkerRules :: "GitignoreRule list" where
  "negMarkerRules = loadIgnoreRules (Some ''!.gitkeep'') ''.''"

text \<open>Two rule tables: content rules at the root, marker rules in \<open>src\<close>.\<close>

definition logTable :: RulesMap where
  "logTable = [''.'' \<mapsto> logRules]"

definition buildTable :: RulesMap where
  "buildTable = [''src'' \<mapsto> [buildRule ''src'']]"

text \<open>The default configuration with both \<open>--clean\<close> and \<open>--check\<close>, and with \<open>--check\<close>
  alone.\<close>

definition cleanCheckConfig :: Config where
  "cleanCheckConfig = defaultConfig\<lparr> clean := True, check := True \<rparr>"

definition checkConfig :: Config where
  "checkConfig = defaultConfig\<lparr> check := True \<rparr>"

text \<open>A small project: \<open>logs\<close> holds one log file, \<open>src\<close> a marker and a source file,
  \<open>node_modules\<close> is excluded by name, \<open>locked\<close> cannot be listed.\<close>

definition projectTree :: fsnode where
  "projectTree =
     Dir True True
       [(''logs'', Dir True True [(''app.log'', File ''x'')]),
        (''src'', Dir True True [(''.gitkeep'', File ''''), (''main.ts'', File ''x'')]),
        (''node_modules'', Dir True True [(''pkg'', Dir True True [])]),
        (''locked'', Dir False True []),
        (''README.md'', File ''hi'')]"






section \<open>Matcher: the last matching rule decides\<close>

lemma isIgnored_snoc:
  "isIgnored p d (rules @ [r]) = (if matchRule p r d then \<not> isNegated r else isIgnored p d rules)"
  by (simp add: isIgnored_def)

text \<open>
  Claim C1. For every rule list, path and type flag, \<open>isIgnored\<close> gives the verdict of
  the last rule of the list that matches the path and type: ignored when that rule is
  not negated, not ignored when it is negated, and not ignored when no rule matches.
  Appending a rule that does not match leaves the verdict as it was.
\<close>

theorem isIgnored_last_match_wins:
  "isIgnored p d rules =
     (case find (\<lambda>r. matchRule p r d) (rev rules) of
        None \<Rightarrow> False
      | Some r \<Rightarrow> \<not> isNegated r)
   \<and> (\<not> matchRule p r d \<longrightarrow> isIgnored p d (rules @ [r]) = isIgnored p d rules)"
proof
  show "isIgnored p d rules =
     (case find (\<lambda>r. matchRule p r d) (rev rules) of None \<Rightarrow> False | Some r \<Rightarrow> \<not> isNegated r)"
  proof (induction rules rule: rev_induct)
    case Nil
    show ?case by (simp add: isIgnored_def)
  next
    case (snoc x xs)
    then show ?case by (simp add: isIgnored_snoc)
  qed
next
  show "\<not> matchRule p r d \<longrightarrow> isIgnored p d (rules @ [r]) = isIgnored p d rules"
    by (simp add: isIgnored_snoc)
qed

theorem isIgnored_last_match_wins_witness:
  "\<not> matchRule ''keep.log'' (buildRule ''.'') False
   \<and> isIgnored ''keep.log'' False (logRules @ [buildRule ''.'']) = isIgnored ''keep.log'' False logRules
   \<and> isIgnored ''keep.log'' False logRules = False
   \<and> isIgnored ''app.log'' False logRules = True"
proof -
  have h: "\<not> matchRule ''keep.log'' (buildRule ''.'') False" by code_simp
  have a: "isIgnored ''keep.log'' False logRules = False" by code_simp
  have b: "isIgnored ''app.log'' False logRules = True" by code_simp
  from isIgnored_last_match_wins [of "''keep.log''" False logRules "buildRule ''.''"] h a b
  show ?thesis by blast
qed

section \<open>The directory-only rule \<open>build/\<close>\<close>

lemma many_any_eol:
  "list_all (\<lambda>c. c \<noteq> LF \<and> c \<noteq> CR) rest \<Longrightarrow> matchesAt [Many AnyChar, Eol] b rest"
  by (induction rest arbitrary: b) auto

lemma testFrom_here: "matchesAt r b s \<Longrightarrow> testFrom r b s"
  by (subst testFrom.simps) simp

lemma buildRule_regex:
  "regex (buildRule d) =
     [BolOrSlash, Lit (CHR ''b''), Lit (CHR ''u''), Lit (CHR ''i''), Lit (CHR ''l''),
      Lit (CHR ''d''), Opt [Lit (CHR ''/''), Many AnyChar], Eol]"
  by (simp add: buildRule_def patternToRegExp_def segmentRegex_def charRegex_def
      escapeRegExp_def)

lemma parseLine_build: "parseLine d ''build/'' = Some (buildRule d)"
  by (simp add: parseLine_def trim_def isWhiteSpace_def startsWith_def endsWith_def
      buildRule_def backslash_def Let_def)

lemma load_build: "loadIgnoreRules (Some ''build/'') d = [buildRule d]"
  by (simp add: loadIgnoreRules_def List.map_filter_simps parseLine_build LF_def CR_def)

text \<open>
  Claim C2, as the code has it. The line \<open>build/\<close> compiles to one directory-only
  rule. Queried as a directory, the rule matches \<open>build\<close> and every path
  \<open>build/rest\<close> whose \<open>rest\<close> holds no line terminator (the \<open>.\<close> of the expression
  does not match LF or CR). Queried as a file, it matches no path at all: not \<open>build\<close>,
  and no path beneath \<open>build\<close> either.
\<close>

theorem build_rule_matches_directories:
  "loadIgnoreRules (Some ''build/'') d = [buildRule d]
   \<and> matchRule ''build'' (buildRule d) True
   \<and> (list_all (\<lambda>c. c \<noteq> LF \<and> c \<noteq> CR) rest \<longrightarrow> matchRule (''build/'' @ rest) (buildRule d) True)
   \<and> \<not> matchRule p (buildRule d) False"
proof (intro conjI)
  show "loadIgnoreRules (Some ''build/'') d = [buildRule d]"
    by (rule load_build)
  show "matchRule ''build'' (buildRule d) True"
    by (simp add: matchRule_def test_def buildRule_regex)
  show "list_all (\<lambda>c. c \<noteq> LF \<and> c \<noteq> CR) rest \<longrightarrow> matchRule (''build/'' @ rest) (buildRule d) True"
  proof
    assume "list_all (\<lambda>c. c \<noteq> LF \<and> c \<noteq> CR) rest"
    then have "matchesAt [Many AnyChar, Eol] False rest"
      by (rule many_any_eol)
    then have "matchesAt (regex (buildRule d)) True (''build/'' @ rest)"
      by (simp add: buildRule_regex del: matchesAt.simps(4))
    then have "test (regex (buildRule d)) (''build/'' @ rest)"
      unfolding test_def by (rule testFrom_here)
    then show "matchRule (''build/'' @ rest) (buildRule d) True"
      by (simp add: matchRule_def)
  qed
  show "\<not> matchRule p (buildRule d) False"
    by (simp add: matchRule_def buildRule_def)
qed

theorem build_rule_matches_directories_witness:
  "list_all (\<lambda>c. c \<noteq> LF \<and> c \<noteq> CR) ''out/app.js''
   \<and> matchRule ''build/out/app.js'' (buildRule ''.'') True
   \<and> \<not> matchRule ''build'' (buildRule ''.'') False
   \<and> loadIgnoreRules (Some ''build/'') ''.'' = [buildRule ''.'']"
proof -
  have h: "list_all (\<lambda>c. c \<noteq> LF \<and> c \<noteq> CR) ''out/app.js''" by (simp add: LF_def CR_def)
  from build_rule_matches_directories [of "''.''" "''out/app.js''" "''build''"] h
  show ?thesis by simp
qed

text \<open>
  Claim C2 as stated fails: the file \<open>build/app.js\<close> lies beneath \<open>build\<close> and the
  rule does not match it, and the directory path \<open>build/a<LF>b\<close> is not matched either.
\<close>

theorem build_rule_beneath_counterexample:
  "loadIgnoreRules (Some ''build/'') ''.'' = [buildRule ''.'']
   \<and> \<not> matchRule ''build/app.js'' (buildRule ''.'') False
   \<and> \<not> matchRule (''build/a'' @ [LF] @ ''b'') (buildRule ''.'') True"
proof (intro conjI)
  show "loadIgnoreRules (Some ''build/'') ''.'' = [buildRule ''.'']"
    by (rule load_build)
  show "\<not> matchRule ''build/app.js'' (buildRule ''.'') False" by code_simp
  show "\<not> matchRule (''build/a'' @ [LF] @ ''b'') (buildRule ''.'') True" by code_simp
qed

section \<open>Lines that reduce to an empty pattern\<close>

lemma parseLine_None_iff:
  "parseLine d raw = None \<longleftrightarrow> trim raw = [] \<or> startsWith (trim raw) (CHR ''#'')"
  by (simp add: parseLine_def Let_def)

lemma length_loadIgnoreRules:
  "length (loadIgnoreRules (Some text) d) =
     length (filter (\<lambda>raw. \<not> (trim raw = [] \<or> startsWith (trim raw) (CHR ''#''))) (splitLines text))"
  by (simp add: loadIgnoreRules_def List.map_filter_def parseLine_None_iff del: not_None_eq)

lemma load_bang: "map pattern (loadIgnoreRules (Some ''!'') d) = ['''']"
  by (simp add: loadIgnoreRules_def List.map_filter_simps parseLine_def trim_def isWhiteSpace_def
      startsWith_def endsWith_def backslash_def Let_def LF_def CR_def)

lemma load_slash: "map pattern (loadIgnoreRules (Some ''/'') d) = ['''']"
  by (simp add: loadIgnoreRules_def List.map_filter_simps parseLine_def trim_def isWhiteSpace_def
      startsWith_def endsWith_def backslash_def Let_def LF_def CR_def)

lemma load_bang_slash: "map pattern (loadIgnoreRules (Some ''!/'') d) = ['''']"
  by (simp add: loadIgnoreRules_def List.map_filter_simps parseLine_def trim_def isWhiteSpace_def
      startsWith_def endsWith_def backslash_def Let_def LF_def CR_def)

text \<open>
  Claim C5, as the code has it. A line yields no rule exactly when, trimmed, it is empty
  or starts with \<open>#\<close>; the rule list of a file has one rule for every other line.
  A line that is empty after the negation mark and the slashes are stripped is no
  exception: \<open>!\<close>, \<open>/\<close> and \<open>!/\<close> each yield one rule, whose pattern text is empty.
\<close>

theorem every_pattern_line_yields_a_rule:
  "(parseLine d raw = None \<longleftrightarrow> trim raw = [] \<or> startsWith (trim raw) (CHR ''#''))
   \<and> length (loadIgnoreRules (Some text) d) =
       length (filter (\<lambda>raw. \<not> (trim raw = [] \<or> startsWith (trim raw) (CHR ''#''))) (splitLines text))
   \<and> map pattern (loadIgnoreRules (Some ''!'') d) = ['''']
   \<and> map pattern (loadIgnoreRules (Some ''/'') d) = ['''']
   \<and> map pattern (loadIgnoreRules (Some ''!/'') d) = ['''']"
  using parseLine_None_iff length_loadIgnoreRules load_bang load_slash load_bang_slash
  by blast

theorem every_pattern_line_yields_a_rule_witness:
  "parseLine ''.'' ''!'' \<noteq> None
   \<and> length (loadIgnoreRules (Some (''# c'' @ [LF] @ ''!'' @ [LF] @ ''/'')) ''.'') = 2
   \<and> map pattern (loadIgnoreRules (Some ''!/'') ''.'') = ['''']"
proof -
  have a: "trim ''!'' = ''!''" by code_simp
  have b: "length (filter (\<lambda>raw. \<not> (trim raw = [] \<or> startsWith (trim raw) (CHR ''#'')))
             (splitLines (''# c'' @ [LF] @ ''!'' @ [LF] @ ''/''))) = 2" by code_simp
  from every_pattern_line_yields_a_rule [of "''.''" "''!''" "''# c'' @ [LF] @ ''!'' @ [LF] @ ''/''"] a b
  show ?thesis by (simp add: startsWith_def)
qed

text \<open>Claim C5 as stated fails: the lines \<open>!\<close>, \<open>/\<close> and \<open>!/\<close> each add a rule
  to the list.\<close>

theorem empty_pattern_line_counterexample:
  "loadIgnoreRules (Some ''!'') ''.'' \<noteq> []
   \<and> loadIgnoreRules (Some ''/'') ''.'' \<noteq> []
   \<and> loadIgnoreRules (Some ''!/'') ''.'' \<noteq> []"
  by code_simp

section \<open>Visible files\<close>

text \<open>
  Claim C7. Whatever the directory and the rule list, no visible file bears the marker
  name, so no rule, negated or not, brings the marker back; and a listing whose files
  all bear the marker name has no visible file.
\<close>

theorem marker_never_visible:
  "gitkeepName cfg \<notin> fst ` set (visibleFiles cfg comps rules files)
   \<and> (list_all (\<lambda>f. fst f = gitkeepName cfg) files \<longrightarrow> visibleFiles cfg comps rules files = [])"
  by (auto simp: visibleFiles_def list_all_iff filter_empty_conv)

theorem marker_never_visible_witness:
  "isIgnored ''.gitkeep'' False negMarkerRules = False
   \<and> list_all (\<lambda>f. fst f = gitkeepName defaultConfig) [(''.gitkeep'', File '''')]
   \<and> visibleFiles defaultConfig [] negMarkerRules [(''.gitkeep'', File '''')] = []
   \<and> visibleFiles defaultConfig [] negMarkerRules [(''a.txt'', File '''')] = [(''a.txt'', File '''')]"
proof -
  have a: "isIgnored ''.gitkeep'' False negMarkerRules = False" by code_simp
  have b: "list_all (\<lambda>f. fst f = gitkeepName defaultConfig) [(''.gitkeep'', File '''')]" by code_simp
  have c: "visibleFiles defaultConfig [] negMarkerRules [(''a.txt'', File '''')] = [(''a.txt'', File '''')]"
    by code_simp
  from marker_never_visible [of defaultConfig "[]" negMarkerRules "[(''.gitkeep'', File '''')]"] a b c
  show ?thesis by blast
qed

section \<open>Rule accumulator: the chain of ancestors, and the cache\<close>

lemma foldl_accumulateStep:
  "foldl (accumulateStep acc parts) a xs =
     a @ concat (map (\<lambda>i. rulesAt (gitignoreMap acc) (gitkeepIgnoreMap acc)
                        (if i = 0 then ''.'' else join ''/'' (take i parts))) xs)"
  by (induction xs arbitrary: a)
     (auto simp: accumulateStep_def rulesAt_def Let_def split: option.splits)

lemma accumulate_loop:
  "foldl (accumulateStep acc parts) [] [0 ..< Suc (length parts)] =
     concat (map (rulesAt (gitignoreMap acc) (gitkeepIgnoreMap acc))
       (''.'' # map (\<lambda>i. join ''/'' (take i parts)) [1 ..< Suc (length parts)]))"
proof -
  let ?dir = "\<lambda>i. if i = 0 then ''.'' else join ''/'' (take i parts)"
  have u: "[0 ..< Suc (length parts)] = 0 # [1 ..< Suc (length parts)]"
    by (simp add: upt_conv_Cons del: upt_Suc)
  have m: "map ?dir [1 ..< Suc (length parts)] =
           map (\<lambda>i. join ''/'' (take i parts)) [1 ..< Suc (length parts)]"
    by (rule map_cong) auto
  have "foldl (accumulateStep acc parts) [] [0 ..< Suc (length parts)] =
        concat (map (rulesAt (gitignoreMap acc) (gitkeepIgnoreMap acc))
          (map ?dir [0 ..< Suc (length parts)]))"
    by (simp add: foldl_accumulateStep comp_def del: upt_Suc)
  also have "map ?dir [0 ..< Suc (length parts)] = ''.'' # map ?dir [1 ..< Suc (length parts)]"
    by (subst u) simp
  finally show ?thesis by (simp only: m)
qed

lemma accumulate_miss:
  "cache acc d = None \<Longrightarrow>
     accumulate acc d =
       (accumulatedRules (gitignoreMap acc) (gitkeepIgnoreMap acc) d,
        acc\<lparr> cache := (cache acc)(d \<mapsto> accumulatedRules (gitignoreMap acc) (gitkeepIgnoreMap acc) d) \<rparr>)"
  by (simp add: accumulate_def Let_def accumulate_loop accumulatedRules_def ancestorChain_def
      del: upt_Suc foldl.simps)

lemma accumulate_hit: "cache acc d = Some rs \<Longrightarrow> accumulate acc d = (rs, acc)"
  by (simp add: accumulate_def)

lemma cacheOk_accumulate:
  assumes "cacheOk gi gk acc"
  shows "fst (accumulate acc d) = accumulatedRules gi gk d"
    and "cacheOk gi gk (snd (accumulate acc d))"
    and "cache (snd (accumulate acc d)) d = Some (accumulatedRules gi gk d)"
  using assms
  by (cases "cache acc d"; auto simp: cacheOk_def accumulate_miss accumulate_hit)+

lemma reachable_cacheOk: "reachable gi gk acc \<Longrightarrow> cacheOk gi gk acc"
proof (induction rule: reachable.induct)
  case (fresh gi gk)
  show ?case by (simp add: cacheOk_def newRulesAccumulator_def)
next
  case (call gi gk acc d)
  then show ?case by (simp add: cacheOk_accumulate)
qed

text \<open>
  Claim C4. On an accumulator a program can hold, \<open>accumulate d\<close> returns, for the
  directories of the chain from the root to \<open>d\<close> in that order, the content rules
  and then the marker rules of each, an absent entry giving nothing. A second call
  for \<open>d\<close> returns the same list and leaves the accumulator as it is; it reads the
  cache and not the tables, since it returns that list even over other tables.
\<close>

theorem accumulate_chain_and_cache:
  assumes "reachable gi gk acc"
  shows "fst (accumulate acc d) = accumulatedRules gi gk d
   \<and> accumulate (snd (accumulate acc d)) d = (accumulatedRules gi gk d, snd (accumulate acc d))
   \<and> fst (accumulate ((snd (accumulate acc d))\<lparr> gitignoreMap := gi', gitkeepIgnoreMap := gk' \<rparr>) d)
       = accumulatedRules gi gk d"
proof -
  from assms have ok: "cacheOk gi gk acc" by (rule reachable_cacheOk)
  have c: "cache (snd (accumulate acc d)) d = Some (accumulatedRules gi gk d)"
    using ok by (rule cacheOk_accumulate)
  show ?thesis
    using cacheOk_accumulate(1) [OF ok] c by (simp add: accumulate_hit accumulate_def)
qed

theorem accumulate_chain_and_cache_witness:
  "reachable logTable buildTable (newRulesAccumulator logTable buildTable)
   \<and> ancestorChain ''src/app'' = [''.'', ''src'', ''src/app'']
   \<and> fst (accumulate (newRulesAccumulator logTable buildTable) ''src/app'') = logRules @ [buildRule ''src'']
   \<and> fst (accumulate (snd (accumulate (newRulesAccumulator logTable buildTable) ''src/app'')) ''src/app'')
       = logRules @ [buildRule ''src'']"
proof -
  have r: "reachable logTable buildTable (newRulesAccumulator logTable buildTable)"
    by (rule reachable.fresh)
  have ch: "ancestorChain ''src/app'' = [''.'', ''src'', ''src/app'']" by code_simp
  have v: "accumulatedRules logTable buildTable ''src/app'' = logRules @ [buildRule ''src'']"
    by (simp add: accumulatedRules_def ch rulesAt_def logTable_def buildTable_def)
  from accumulate_chain_and_cache [OF r, of "''src/app''"] r ch v
  show ?thesis by simp
qed

section \<open>Directory walker: unfolding and induction\<close>

text \<open>The four ways a call of \<open>walkDirectory\<close> goes, and the two of a round of its loop.\<close>

lemma walkDirectory_excluded:
  "basename rootName comps \<in> set (excludeDirs cfg) \<Longrightarrow>
     walkDirectory cfg rootName comps node w = (True, node, w)"
  by (simp add: walkDirectory.simps)

lemma walkDirectory_ignored:
  "\<lbrakk>basename rootName comps \<notin> set (excludeDirs cfg);
    accumulate (racc w) (relativePosix comps) = (rules, acc');
    isIgnored (relativePosix comps) True rules\<rbrakk>
   \<Longrightarrow> walkDirectory cfg rootName comps node w =
         (True, node, pushSkipped (relativePosix comps) (w\<lparr> racc := acc' \<rparr>))"
  by (simp add: walkDirectory.simps)

lemma walkDirectory_unlistable:
  "\<lbrakk>basename rootName comps \<notin> set (excludeDirs cfg);
    accumulate (racc w) (relativePosix comps) = (rules, acc');
    \<not> isIgnored (relativePosix comps) True rules;
    \<not> listable node\<rbrakk>
   \<Longrightarrow> walkDirectory cfg rootName comps node w =
         (True, node, pushError (ReaddirFailed (relativePosix comps)) (w\<lparr> racc := acc' \<rparr>))"
  by (cases node) (simp_all add: walkDirectory.simps)

lemma walkDirectory_listed:
  "\<lbrakk>basename rootName comps \<notin> set (excludeDirs cfg);
    accumulate (racc w) (relativePosix comps) = (rules, acc');
    \<not> isIgnored (relativePosix comps) True rules;
    walkSubdirs cfg rootName comps dirEntries (w\<lparr> racc := acc' \<rparr>) = (h, es, w2)\<rbrakk>
   \<Longrightarrow> walkDirectory cfg rootName comps (Dir True wr dirEntries) w =
         decideMarker cfg comps rules wr dirEntries h es w2"
  by (simp add: walkDirectory.simps)



lemma listable_cases: "listable node \<Longrightarrow> \<exists>wr es. node = Dir True wr es"
  by (cases node) auto

text \<open>Induction over a walk, one case for each of these ways.\<close>

lemma walk_induct [case_names excluded ignored unlistable listed none subdir other]:
  fixes P :: "Config \<Rightarrow> string \<Rightarrow> string list \<Rightarrow> fsnode \<Rightarrow> World \<Rightarrow> bool"
    and Q :: "Config \<Rightarrow> string \<Rightarrow> string list \<Rightarrow> (string \<times> fsnode) list \<Rightarrow> World \<Rightarrow> bool"
  assumes "\<And>cfg rootName comps node w.
      basename rootName comps \<in> set (excludeDirs cfg) \<Longrightarrow> P cfg rootName comps node w"
    and "\<And>cfg rootName comps node w rules acc'.
      \<lbrakk>basename rootName comps \<notin> set (excludeDirs cfg);
       accumulate (racc w) (relativePosix comps) = (rules, acc');
       isIgnored (relativePosix comps) True rules\<rbrakk> \<Longrightarrow> P cfg rootName comps node w"
    and "\<And>cfg rootName comps node w rules acc'.
      \<lbrakk>basename rootName comps \<notin> set (excludeDirs cfg);
       accumulate (racc w) (relativePosix comps) = (rules, acc');
       \<not> isIgnored (relativePosix comps) True rules;
       \<not> listable node\<rbrakk> \<Longrightarrow> P cfg rootName comps node w"
    and "\<And>cfg rootName comps wr dirEntries w rules acc'.
      \<lbrakk>basename rootName comps \<notin> set (excludeDirs cfg);
       accumulate (racc w) (relativePosix comps) = (rules, acc');
       \<not> isIgnored (relativePosix comps) True rules;
       Q cfg rootName comps dirEntries (w\<lparr> racc := acc' \<rparr>)\<rbrakk>
      \<Longrightarrow> P cfg rootName comps (Dir True wr dirEntries) w"
    and "\<And>cfg rootName comps w. Q cfg rootName comps [] w"
    and "\<And>cfg rootName comps entry rest w.
      \<lbrakk>isDirectory (snd entry);
       P cfg rootName (comps @ [fst entry]) (snd entry) w;
       Q cfg rootName comps rest
         (snd (snd (walkDirectory cfg rootName (comps @ [fst entry]) (snd entry) w)))\<rbrakk>
      \<Longrightarrow> Q cfg rootName comps (entry # rest) w"
    and "\<And>cfg rootName comps entry rest w.
      \<lbrakk>\<not> isDirectory (snd entry); Q cfg rootName comps rest w\<rbrakk>
      \<Longrightarrow> Q cfg rootName comps (entry # rest) w"
  shows "P cfg rootName comps node w" and "Q cfg rootName comps es w"
proof (induction cfg rootName comps node w and cfg rootName comps es w
       rule: walkDirectory_walkSubdirs.induct)
  case (1 cfg rootName comps node w)
  show ?case
  proof (cases "basename rootName comps \<in> set (excludeDirs cfg)")
    case True
    then show ?thesis by (rule assms(1))
  next
    case notExcl: False
    obtain rules acc' where acc: "accumulate (racc w) (relativePosix comps) = (rules, acc')"
      by fastforce
    show ?thesis
    proof (cases "isIgnored (relativePosix comps) True rules")
      case True
      with notExcl acc show ?thesis by (rule assms(2))
    next
      case notIgn: False
      show ?thesis
      proof (cases "listable node")
        case False
        with notExcl acc notIgn show ?thesis by (rule assms(3))
      next
        case True
        then obtain wr dirEntries where node: "node = Dir True wr dirEntries"
          using listable_cases by blast
        have "Q cfg rootName comps dirEntries (w\<lparr> racc := acc' \<rparr>)"
          using "1.IH" [OF refl refl notExcl acc [symmetric] refl notIgn node] by simp
        with notExcl acc notIgn show ?thesis unfolding node by (rule assms(4))
      qed
    qed
  qed
next
  case (2 cfg rootName comps w)
  show ?case by (rule assms(5))
next
  case (3 cfg rootName comps entry rest w)
  show ?case
  proof (cases "isDirectory (snd entry)")
    case True
    obtain b node' w1 where
      r: "walkDirectory cfg rootName (comps @ [fst entry]) (snd entry) w = (b, node', w1)"
      using prod_cases3 by blast
    have "Q cfg rootName comps rest w1"
      using "3.IH"(2) [OF True r [symmetric] refl] .
    then have "Q cfg rootName comps rest
         (snd (snd (walkDirectory cfg rootName (comps @ [fst entry]) (snd entry) w)))"
      by (simp add: r)
    with True "3.IH"(1) [OF True] show ?thesis by (rule assms(6))
  next
    case False
    with "3.IH"(3) [OF False] show ?thesis by (intro assms(7))
  qed
qed

text \<open>What the pushes onto the summary and the console leave alone.\<close>

lemma racc_push [simp]:
  "racc (pushCreated p w) = racc w" "racc (pushRemoved p w) = racc w"
  "racc (pushSkipped p w) = racc w" "racc (pushError e w) = racc w" "racc (say n w) = racc w"
  by (simp_all add: pushCreated_def pushRemoved_def pushSkipped_def pushError_def say_def)

lemma errors_push [simp]:
  "errors (summary (pushCreated p w)) = errors (summary w)"
  "errors (summary (pushRemoved p w)) = errors (summary w)"
  "errors (summary (pushSkipped p w)) = errors (summary w)"
  "errors (summary (pushError e w)) = errors (summary w) @ [e]"
  "errors (summary (say n w)) = errors (summary w)"
  by (simp_all add: pushCreated_def pushRemoved_def pushSkipped_def pushError_def say_def)

lemma created_push [simp]:
  "created (summary (pushCreated p w)) = created (summary w) @ [p]"
  "created (summary (pushRemoved p w)) = created (summary w)"
  "created (summary (pushSkipped p w)) = created (summary w)"
  "created (summary (pushError e w)) = created (summary w)"
  "created (summary (say n w)) = created (summary w)"
  by (simp_all add: pushCreated_def pushRemoved_def pushSkipped_def pushError_def say_def)

lemma removed_push [simp]:
  "removed (summary (pushCreated p w)) = removed (summary w)"
  "removed (summary (pushRemoved p w)) = removed (summary w) @ [p]"
  "removed (summary (pushSkipped p w)) = removed (summary w)"
  "removed (summary (pushError e w)) = removed (summary w)"
  "removed (summary (say n w)) = removed (summary w)"
  by (simp_all add: pushCreated_def pushRemoved_def pushSkipped_def pushError_def say_def)

lemma skipped_push [simp]:
  "skipped (summary (pushCreated p w)) = skipped (summary w)"
  "skipped (summary (pushRemoved p w)) = skipped (summary w)"
  "skipped (summary (pushSkipped p w)) = skipped (summary w) @ [p]"
  "skipped (summary (pushError e w)) = skipped (summary w)"
  "skipped (summary (say n w)) = skipped (summary w)"
  by (simp_all add: pushCreated_def pushRemoved_def pushSkipped_def pushError_def say_def)

lemma console_push [simp]:
  "console (pushCreated p w) = console w" "console (pushRemoved p w) = console w"
  "console (pushSkipped p w) = console w" "console (pushError e w) = console w"
  "console (say n w) = console w @ [n]"
  by (simp_all add: pushCreated_def pushRemoved_def pushSkipped_def pushError_def say_def)

lemma world_racc_update [simp]:
  "summary (w\<lparr> racc := a \<rparr>) = summary w" "console (w\<lparr> racc := a \<rparr>) = console w"
  by simp_all

lemma decideMarker_check:
  assumes "check cfg" "\<not> clean cfg"
  shows "fst (snd (decideMarker cfg comps rules wr dirEntries h es w)) = Dir True wr es"
    and "summary (snd (snd (decideMarker cfg comps rules wr dirEntries h es w))) = summary w"
  using assms by (simp_all add: decideMarker_def Let_def say_def)

lemma decideMarker_flag:
  "fst (decideMarker cfg comps rules wr dirEntries h es w) =
     (visibleFiles cfg comps rules (filter (\<lambda>d. isFile (snd d)) dirEntries) = [] \<and> \<not> h)"
  by (simp add: decideMarker_def Let_def split: prod.splits)

lemma decideMarker_racc:
  "racc (snd (snd (decideMarker cfg comps rules wr dirEntries h es w))) = racc w"
  by (simp add: decideMarker_def Let_def createGitkeep_def removeGitkeep_def
      split: prod.splits option.splits)

section \<open>Facts about every walk\<close>

lemma check_frame:
  assumes "check cfg" "\<not> clean cfg"
  shows "fst (snd (walkDirectory cfg rootName comps node w)) = node
         \<and> created (summary (snd (snd (walkDirectory cfg rootName comps node w)))) = created (summary w)
         \<and> removed (summary (snd (snd (walkDirectory cfg rootName comps node w)))) = removed (summary w)"
    and "fst (snd (walkSubdirs cfg rootName comps es w)) = es
         \<and> created (summary (snd (snd (walkSubdirs cfg rootName comps es w)))) = created (summary w)
         \<and> removed (summary (snd (snd (walkSubdirs cfg rootName comps es w)))) = removed (summary w)"
  using assms
proof (induction cfg rootName comps node w and cfg rootName comps es w rule: walk_induct)
  case (excluded cfg rootName comps node w)
  then show ?case by (simp add: walkDirectory_excluded)
next
  case (ignored cfg rootName comps node w rules acc')
  then show ?case by (simp add: walkDirectory_ignored)
next
  case (unlistable cfg rootName comps node w rules acc')
  then show ?case by (simp add: walkDirectory_unlistable)
next
  case (listed cfg rootName comps wr dirEntries w rules acc')
  obtain h es w2 where s: "walkSubdirs cfg rootName comps dirEntries (w\<lparr> racc := acc' \<rparr>) = (h, es, w2)"
    using prod_cases3 by blast
  from listed s show ?case
    by (simp add: walkDirectory_listed decideMarker_check)
next
  case (none cfg rootName comps w)
  show ?case by simp
next
  case (subdir cfg rootName comps entry rest w)
  then show ?case by (auto split: prod.splits)
next
  case (other cfg rootName comps entry rest w)
  then show ?case by (auto split: prod.splits)
qed

lemma walk_cacheOk:
  "cacheOk gi gk (racc w) \<Longrightarrow> cacheOk gi gk (racc (snd (snd (walkDirectory cfg rootName comps node w))))"
  "cacheOk gi gk (racc w) \<Longrightarrow> cacheOk gi gk (racc (snd (snd (walkSubdirs cfg rootName comps es w))))"
proof (induction cfg rootName comps node w and cfg rootName comps es w rule: walk_induct)
  case (excluded cfg rootName comps node w)
  then show ?case by (simp add: walkDirectory_excluded)
next
  case (ignored cfg rootName comps node w rules acc')
  with cacheOk_accumulate(2) [of gi gk "racc w" "relativePosix comps"]
  show ?case by (simp add: walkDirectory_ignored)
next
  case (unlistable cfg rootName comps node w rules acc')
  with cacheOk_accumulate(2) [of gi gk "racc w" "relativePosix comps"]
  show ?case by (simp add: walkDirectory_unlistable)
next
  case (listed cfg rootName comps wr dirEntries w rules acc')
  obtain h es w2 where s: "walkSubdirs cfg rootName comps dirEntries (w\<lparr> racc := acc' \<rparr>) = (h, es, w2)"
    using prod_cases3 by blast
  from listed s cacheOk_accumulate(2) [of gi gk "racc w" "relativePosix comps"]
  show ?case
    by (simp add: walkDirectory_listed decideMarker_racc)
next
  case (none cfg rootName comps w)
  then show ?case by simp
next
  case (subdir cfg rootName comps entry rest w)
  then show ?case by (auto split: prod.splits)
next
  case (other cfg rootName comps entry rest w)
  then show ?case by (auto split: prod.splits)
qed

lemma walk_flag:
  "cacheOk gi gk (racc w) \<Longrightarrow>
     fst (walkDirectory cfg rootName comps node w) = dirIsEmpty cfg gi gk rootName comps node"
  "cacheOk gi gk (racc w) \<Longrightarrow>
     fst (walkSubdirs cfg rootName comps es w) = (\<not> subdirsEmpty cfg gi gk rootName comps es)"
proof (induction cfg rootName comps node w and cfg rootName comps es w rule: walk_induct)
  case (excluded cfg rootName comps node w)
  then show ?case by (simp add: walkDirectory_excluded dirIsEmpty.simps)
next
  case (ignored cfg rootName comps node w rules acc')
  with cacheOk_accumulate(1) [of gi gk "racc w" "relativePosix comps"]
  show ?case by (simp add: walkDirectory_ignored dirIsEmpty.simps)
next
  case (unlistable cfg rootName comps node w rules acc')
  with cacheOk_accumulate(1) [of gi gk "racc w" "relativePosix comps"]
  show ?case by (cases node) (simp_all add: walkDirectory_unlistable dirIsEmpty.simps)
next
  case (listed cfg rootName comps wr dirEntries w rules acc')
  obtain h es w2 where s: "walkSubdirs cfg rootName comps dirEntries (w\<lparr> racc := acc' \<rparr>) = (h, es, w2)"
    using prod_cases3 by blast
  from listed s cacheOk_accumulate(1,2) [of gi gk "racc w" "relativePosix comps"]
  show ?case
    by (simp add: walkDirectory_listed decideMarker_flag dirIsEmpty.simps)
next
  case (none cfg rootName comps w)
  then show ?case by simp
next
  case (subdir cfg rootName comps entry rest w)
  with walk_cacheOk(1) [of gi gk w cfg rootName "comps @ [fst entry]" "snd entry"]
  show ?case by (auto split: prod.splits)
next
  case (other cfg rootName comps entry rest w)
  then show ?case by (auto split: prod.splits)
qed

lemma decideMarker_errors_mono:
  "\<exists>xs. errors (summary (snd (snd (decideMarker cfg comps rules wr dirEntries h es w)))) =
          errors (summary w) @ xs"
  by (simp add: decideMarker_def Let_def createGitkeep_def removeGitkeep_def
      split: prod.splits option.splits)

lemma walk_errors_mono:
  "\<exists>xs. errors (summary (snd (snd (walkDirectory cfg rootName comps node w)))) = errors (summary w) @ xs"
  "\<exists>xs. errors (summary (snd (snd (walkSubdirs cfg rootName comps es w)))) = errors (summary w) @ xs"
proof (induction cfg rootName comps node w and cfg rootName comps es w rule: walk_induct)
  case (excluded cfg rootName comps node w)
  then show ?case by (simp add: walkDirectory_excluded)
next
  case (ignored cfg rootName comps node w rules acc')
  then show ?case by (simp add: walkDirectory_ignored)
next
  case (unlistable cfg rootName comps node w rules acc')
  then show ?case by (simp add: walkDirectory_unlistable)
next
  case (listed cfg rootName comps wr dirEntries w rules acc')
  obtain h es w2 where s: "walkSubdirs cfg rootName comps dirEntries (w\<lparr> racc := acc' \<rparr>) = (h, es, w2)"
    using prod_cases3 by blast
  from listed.IH s obtain xs where "errors (summary w2) = errors (summary w) @ xs"
    by auto
  moreover obtain ys where
    "errors (summary (snd (snd (decideMarker cfg comps rules wr dirEntries h es w2)))) =
       errors (summary w2) @ ys"
    using decideMarker_errors_mono by blast
  ultimately show ?case
    using listed s by (simp add: walkDirectory_listed)
next
  case (none cfg rootName comps w)
  show ?case by simp
next
  case (subdir cfg rootName comps entry rest w)
  then show ?case by (auto split: prod.splits)
next
  case (other cfg rootName comps entry rest w)
  then show ?case by (auto split: prod.splits)
qed

section \<open>Excluded directories\<close>

text \<open>
  Claim C3, on the code. At a directory whose bare name is in the excluded-name set the
  walk returns at once: it returns empty = true, and the directory and the world are as
  they were, so nothing is descended into and no marker inside is touched. The summary
  is part of the world: the directory is not appended to the skipped list, which the
  claim says it is. (An ignored directory is appended, see \<open>walkDirectory_ignored\<close>.)
\<close>

theorem excluded_directory_left_alone:
  assumes "basename rootName comps \<in> set (excludeDirs cfg)"
  shows "walkDirectory cfg rootName comps node w = (True, node, w)
         \<and> skipped (summary (snd (snd (walkDirectory cfg rootName comps node w)))) = skipped (summary w)"
  using assms by (simp add: walkDirectory_excluded)

theorem excluded_directory_left_alone_witness:
  "basename ''proj'' [''node_modules''] \<in> set (excludeDirs defaultConfig)
   \<and> walkDirectory defaultConfig ''proj'' [''node_modules''] (Dir True True [(''pkg'', Dir True True [])])
        (initialWorld Map.empty Map.empty)
      = (True, Dir True True [(''pkg'', Dir True True [])], initialWorld Map.empty Map.empty)
   \<and> skipped (summary (snd (snd (walkDirectory defaultConfig ''proj'' [''node_modules'']
        (Dir True True [(''pkg'', Dir True True [])]) (initialWorld Map.empty Map.empty))))) = []"
proof -
  have h: "basename ''proj'' [''node_modules''] \<in> set (excludeDirs defaultConfig)"
    by (simp add: basename_def defaultConfig_def)
  from excluded_directory_left_alone [OF h, of "Dir True True [(''pkg'', Dir True True [])]"
      "initialWorld Map.empty Map.empty"] h
  show ?thesis by (simp add: initialWorld_def emptySummary_def)
qed

section \<open>Listing failures\<close>

text \<open>
  Claim C6. When the listing of a directory fails (the directory being neither excluded
  nor ignored), the walk of that directory appends one diagnostic to the errors list,
  leaves the tree as it is and returns empty = true. The walk goes on: in the loop of
  the parent the remaining entries are walked from the world with that diagnostic, the
  flag of the loop is theirs alone, and the diagnostic is in the errors list the loop
  returns. (\<open>walkDirectory\<close> is a total function: every walk returns a summary.)
\<close>

theorem listing_failure_is_an_empty_leaf:
  assumes "basename rootName comps \<notin> set (excludeDirs cfg)"
    and "accumulate (racc w) (relativePosix comps) = (rules, acc')"
    and "\<not> isIgnored (relativePosix comps) True rules"
    and "\<not> listable node"
  shows "walkDirectory cfg rootName comps node w =
           (True, node, pushError (ReaddirFailed (relativePosix comps)) (w\<lparr> racc := acc' \<rparr>))
         \<and> (comps = parent @ [name] \<and> isDirectory node \<longrightarrow>
              walkSubdirs cfg rootName parent ((name, node) # rest) w =
                (case walkSubdirs cfg rootName parent rest
                        (pushError (ReaddirFailed (relativePosix comps)) (w\<lparr> racc := acc' \<rparr>)) of
                   (hasNonEmptySubdir, rest', w2) \<Rightarrow> (hasNonEmptySubdir, (name, node) # rest', w2))
              \<and> ReaddirFailed (relativePosix comps)
                  \<in> set (errors (summary (snd (snd (walkSubdirs cfg rootName parent ((name, node) # rest) w))))))"
proof -
  let ?w' = "pushError (ReaddirFailed (relativePosix comps)) (w\<lparr> racc := acc' \<rparr>)"
  have a: "walkDirectory cfg rootName comps node w = (True, node, ?w')"
    using assms by (rule walkDirectory_unlistable)
  have b: "walkSubdirs cfg rootName parent ((name, node) # rest) w =
             (case walkSubdirs cfg rootName parent rest ?w' of
                (hasNonEmptySubdir, rest', w2) \<Rightarrow> (hasNonEmptySubdir, (name, node) # rest', w2))"
    if "comps = parent @ [name]" "isDirectory node"
    using that a by (simp split: prod.splits)
  have c: "ReaddirFailed (relativePosix comps)
             \<in> set (errors (summary (snd (snd (walkSubdirs cfg rootName parent ((name, node) # rest) w)))))"
    if "comps = parent @ [name]" "isDirectory node"
  proof -
    obtain xs where "errors (summary (snd (snd (walkSubdirs cfg rootName parent rest ?w')))) =
                       errors (summary ?w') @ xs"
      using walk_errors_mono(2) by blast
    then show ?thesis
      using b [OF that] by (simp split: prod.splits)
  qed
  from a b c show ?thesis by blast
qed

theorem listing_failure_is_an_empty_leaf_witness:
  "basename ''proj'' [''locked''] \<notin> set (excludeDirs defaultConfig)
   \<and> \<not> isIgnored ''locked'' True logRules
   \<and> \<not> listable (Dir False True [])
   \<and> fst (walkDirectory defaultConfig ''proj'' [''locked''] (Dir False True []) (initialWorld logTable Map.empty))
   \<and> ReaddirFailed ''locked'' \<in> set (errors (summary (snd (snd
        (walkSubdirs defaultConfig ''proj'' [] [(''locked'', Dir False True []), (''logs'', Dir True True [])]
           (initialWorld logTable Map.empty))))))
   \<and> created (summary (snd (snd
        (walkSubdirs defaultConfig ''proj'' [] [(''locked'', Dir False True []), (''logs'', Dir True True [])]
           (initialWorld logTable Map.empty))))) = [''logs/.gitkeep'']"
proof -
  let ?w = "initialWorld logTable Map.empty"
  have e: "basename ''proj'' [''locked''] \<notin> set (excludeDirs defaultConfig)"
    by (simp add: basename_def defaultConfig_def)
  have r: "relativePosix [''locked''] = ''locked''" by (simp add: relativePosix_def)
  obtain acc' where acc: "accumulate (racc ?w) (relativePosix [''locked'']) = (logRules, acc')"
    by (simp add: accumulate_def initialWorld_def newRulesAccumulator_def r Let_def
        accumulateStep_def logTable_def)
  have i: "\<not> isIgnored ''locked'' True logRules" by code_simp
  have l: "\<not> listable (Dir False True [])" by simp
  have c: "created (summary (snd (snd
        (walkSubdirs defaultConfig ''proj'' [] [(''locked'', Dir False True []), (''logs'', Dir True True [])]
           (initialWorld logTable Map.empty))))) = [''logs/.gitkeep'']"
    by code_simp
  have d: "[''locked''] = [] @ [''locked''] \<and> isDirectory (Dir False True [])" by simp
  note t = listing_failure_is_an_empty_leaf [OF e acc _ l, of "[]" "''locked''"
      "[(''logs'', Dir True True [])]", unfolded r, OF i]
  from t have "walkDirectory defaultConfig ''proj'' [''locked''] (Dir False True []) ?w =
      (True, Dir False True [], pushError (ReaddirFailed ''locked'') (?w\<lparr> racc := acc' \<rparr>))"
    by (rule conjunct1)
  then have f: "fst (walkDirectory defaultConfig ''proj'' [''locked''] (Dir False True []) ?w)"
    by simp
  from t d have m: "ReaddirFailed ''locked'' \<in> set (errors (summary (snd (snd
        (walkSubdirs defaultConfig ''proj'' [] [(''locked'', Dir False True []), (''logs'', Dir True True [])]
           ?w)))))"
    by blast
  from e i l c f m show ?thesis by blast
qed

section \<open>Check mode\<close>

text \<open>
  Claim C8. In check mode with clean mode off, a walk leaves the tree as it is, so no
  marker is created or deleted and every file is unchanged, and it adds nothing to
  the created and removed lists, which stay empty when they start empty. The flag a
  directory returns is still its emptiness, computed from the tree and the rules.
\<close>

theorem check_mode_is_read_only:
  assumes "check cfg" and "\<not> clean cfg"
  shows "fst (snd (walkDirectory cfg rootName comps node w)) = node
   \<and> created (summary (snd (snd (walkDirectory cfg rootName comps node w)))) = created (summary w)
   \<and> removed (summary (snd (snd (walkDirectory cfg rootName comps node w)))) = removed (summary w)
   \<and> (reachable gi gk (racc w) \<longrightarrow>
        fst (walkDirectory cfg rootName comps node w) = dirIsEmpty cfg gi gk rootName comps node)"
  using check_frame(1) [OF assms] walk_flag(1) reachable_cacheOk by blast

theorem check_mode_is_read_only_witness:
  "check checkConfig \<and> \<not> clean checkConfig
   \<and> reachable logTable Map.empty (racc (initialWorld logTable Map.empty))
   \<and> fst (snd (walkDirectory checkConfig ''proj'' [] projectTree (initialWorld logTable Map.empty)))
       = projectTree
   \<and> created (summary (snd (snd (walkDirectory checkConfig ''proj'' [] projectTree
        (initialWorld logTable Map.empty))))) = []
   \<and> removed (summary (snd (snd (walkDirectory checkConfig ''proj'' [] projectTree
        (initialWorld logTable Map.empty))))) = []
   \<and> fst (walkDirectory checkConfig ''proj'' [] projectTree (initialWorld logTable Map.empty))
       = dirIsEmpty checkConfig logTable Map.empty ''proj'' [] projectTree
   \<and> console (snd (snd (walkDirectory checkConfig ''proj'' [] projectTree
        (initialWorld logTable Map.empty)))) = [EmptyWithoutMarker ''logs'', NonEmptyWithMarker ''src'']"
proof -
  have c: "check checkConfig" "\<not> clean checkConfig"
    by (simp_all add: checkConfig_def defaultConfig_def)
  have r: "reachable logTable Map.empty (racc (initialWorld logTable Map.empty))"
    by (simp add: initialWorld_def reachable.fresh)
  have s: "created (summary (initialWorld logTable Map.empty)) = []"
      "removed (summary (initialWorld logTable Map.empty)) = []"
    by (simp_all add: initialWorld_def emptySummary_def)
  have k: "console (snd (snd (walkDirectory checkConfig ''proj'' [] projectTree
        (initialWorld logTable Map.empty)))) = [EmptyWithoutMarker ''logs'', NonEmptyWithMarker ''src'']"
    by code_simp
  from check_mode_is_read_only [OF c, of "''proj''" "[]" projectTree "initialWorld logTable Map.empty"
      logTable Map.empty] c r s k
  show ?thesis by simp
qed

section \<open>Clean mode together with check mode\<close>

lemma decideMarker_clean:
  assumes "clean cfg"
  shows "decideMarker cfg comps rules wr dirEntries h es w =
     (if list_ex (\<lambda>f. fst f = gitkeepName cfg) (filter (\<lambda>d. isFile (snd d)) dirEntries)
      then (case removeGitkeep cfg comps wr es w of
              (es', w') \<Rightarrow>
                ((visibleFiles cfg comps rules (filter (\<lambda>d. isFile (snd d)) dirEntries) = [] \<and> \<not> h),
                 Dir True wr es', w'))
      else ((visibleFiles cfg comps rules (filter (\<lambda>d. isFile (snd d)) dirEntries) = [] \<and> \<not> h),
            Dir True wr es, w))"
  using assms by (simp add: decideMarker_def Let_def)

lemma removeGitkeep_check_irrelevant:
  "removeGitkeep (cfg\<lparr> check := b \<rparr>) comps wr es w = removeGitkeep cfg comps wr es w"
  by (simp add: removeGitkeep_def Let_def)

lemma visibleFiles_check_irrelevant:
  "visibleFiles (cfg\<lparr> check := b \<rparr>) comps rules files = visibleFiles cfg comps rules files"
  by (simp add: visibleFiles_def)

lemma decideMarker_clean_check_irrelevant:
  assumes "clean cfg"
  shows "decideMarker (cfg\<lparr> check := b \<rparr>) comps rules wr dirEntries h es w =
         decideMarker cfg comps rules wr dirEntries h es w"
  using assms
  by (simp add: decideMarker_clean removeGitkeep_check_irrelevant visibleFiles_check_irrelevant)

lemma removeGitkeep_frame:
  "created (summary (snd (removeGitkeep cfg comps wr es w))) = created (summary w)"
  "filter isCheckFinding (console (snd (removeGitkeep cfg comps wr es w))) =
     filter isCheckFinding (console w)"
  by (simp_all add: removeGitkeep_def Let_def split: option.splits)

lemma decideMarker_clean_frame:
  assumes "clean cfg"
  shows "created (summary (snd (snd (decideMarker cfg comps rules wr dirEntries h es w)))) =
           created (summary w)"
    and "filter isCheckFinding (console (snd (snd (decideMarker cfg comps rules wr dirEntries h es w)))) =
           filter isCheckFinding (console w)"
  using assms
  by (simp_all add: decideMarker_clean removeGitkeep_frame split: prod.splits)
     (metis removeGitkeep_frame snd_conv)+

lemma clean_check_irrelevant:
  "clean cfg \<Longrightarrow>
     walkDirectory (cfg\<lparr> check := b \<rparr>) rootName comps node w = walkDirectory cfg rootName comps node w"
  "clean cfg \<Longrightarrow>
     walkSubdirs (cfg\<lparr> check := b \<rparr>) rootName comps es w = walkSubdirs cfg rootName comps es w"
proof (induction cfg rootName comps node w and cfg rootName comps es w rule: walk_induct)
  case (excluded cfg rootName comps node w)
  then show ?case by (simp add: walkDirectory_excluded)
next
  case (ignored cfg rootName comps node w rules acc')
  then show ?case by (simp add: walkDirectory_ignored)
next
  case (unlistable cfg rootName comps node w rules acc')
  then show ?case by (simp add: walkDirectory_unlistable)
next
  case (listed cfg rootName comps wr dirEntries w rules acc')
  obtain h es w2 where s: "walkSubdirs cfg rootName comps dirEntries (w\<lparr> racc := acc' \<rparr>) = (h, es, w2)"
    using prod_cases3 by blast
  with listed have s': "walkSubdirs (cfg\<lparr> check := b \<rparr>) rootName comps dirEntries (w\<lparr> racc := acc' \<rparr>) = (h, es, w2)"
    by simp
  from listed s s' show ?case
    by (simp add: walkDirectory_listed decideMarker_clean_check_irrelevant)
next
  case (none cfg rootName comps w)
  show ?case by simp
next
  case (subdir cfg rootName comps entry rest w)
  then show ?case
    by (cases "walkDirectory cfg rootName (comps @ [fst entry]) (snd entry) w") simp
next
  case (other cfg rootName comps entry rest w)
  then show ?case by simp
qed

lemma clean_frame:
  "clean cfg \<Longrightarrow>
     created (summary (snd (snd (walkDirectory cfg rootName comps node w)))) = created (summary w)
     \<and> filter isCheckFinding (console (snd (snd (walkDirectory cfg rootName comps node w)))) =
         filter isCheckFinding (console w)"
  "clean cfg \<Longrightarrow>
     created (summary (snd (snd (walkSubdirs cfg rootName comps es w)))) = created (summary w)
     \<and> filter isCheckFinding (console (snd (snd (walkSubdirs cfg rootName comps es w)))) =
         filter isCheckFinding (console w)"
proof (induction cfg rootName comps node w and cfg rootName comps es w rule: walk_induct)
  case (excluded cfg rootName comps node w)
  then show ?case by (simp add: walkDirectory_excluded)
next
  case (ignored cfg rootName comps node w rules acc')
  then show ?case by (simp add: walkDirectory_ignored)
next
  case (unlistable cfg rootName comps node w rules acc')
  then show ?case by (simp add: walkDirectory_unlistable)
next
  case (listed cfg rootName comps wr dirEntries w rules acc')
  obtain h es w2 where s: "walkSubdirs cfg rootName comps dirEntries (w\<lparr> racc := acc' \<rparr>) = (h, es, w2)"
    using prod_cases3 by blast
  from listed s show ?case
    by (simp add: walkDirectory_listed decideMarker_clean_frame)
next
  case (none cfg rootName comps w)
  show ?case by simp
next
  case (subdir cfg rootName comps entry rest w)
  then show ?case by (auto split: prod.splits)
next
  case (other cfg rootName comps entry rest w)
  then show ?case by (auto split: prod.splits)
qed

text \<open>
  Claim C10. With both the clean flag and the check flag set, a walk is the walk of
  clean mode: it returns what the same walk returns with the check flag off. It
  creates no marker (the created list is as before), prints none of the findings of
  check mode, and in every listed directory that holds a marker it calls the removal
  of the marker, whatever the emptiness of the directory.
\<close>

theorem clean_takes_precedence_over_check:
  assumes "clean cfg" and "check cfg"
  shows "walkDirectory cfg rootName comps node w =
           walkDirectory (cfg\<lparr> check := False \<rparr>) rootName comps node w
   \<and> created (summary (snd (snd (walkDirectory cfg rootName comps node w)))) = created (summary w)
   \<and> filter isCheckFinding (console (snd (snd (walkDirectory cfg rootName comps node w)))) =
       filter isCheckFinding (console w)
   \<and> (list_ex (\<lambda>f. fst f = gitkeepName cfg) (filter (\<lambda>d. isFile (snd d)) dirEntries) \<longrightarrow>
        decideMarker cfg dir rules wr dirEntries h es v =
          (case removeGitkeep cfg dir wr es v of
             (es', v') \<Rightarrow>
               ((visibleFiles cfg dir rules (filter (\<lambda>d. isFile (snd d)) dirEntries) = [] \<and> \<not> h),
                Dir True wr es', v')))"
  using clean_check_irrelevant(1) [OF assms(1), of False rootName comps node w]
    clean_frame(1) [OF assms(1), of rootName comps node w]
    decideMarker_clean [OF assms(1), of dir rules wr dirEntries h es v]
  by simp

theorem clean_takes_precedence_over_check_witness:
  "clean cleanCheckConfig \<and> check cleanCheckConfig
   \<and> fst (snd (walkDirectory cleanCheckConfig ''proj'' [] projectTree (initialWorld logTable Map.empty)))
       = fst (snd (walkDirectory (cleanCheckConfig\<lparr> check := False \<rparr>) ''proj'' [] projectTree
           (initialWorld logTable Map.empty)))
   \<and> created (summary (snd (snd (walkDirectory cleanCheckConfig ''proj'' [] projectTree
        (initialWorld logTable Map.empty))))) = []
   \<and> removed (summary (snd (snd (walkDirectory cleanCheckConfig ''proj'' [] projectTree
        (initialWorld logTable Map.empty))))) = [''src/.gitkeep'']
   \<and> console (snd (snd (walkDirectory cleanCheckConfig ''proj'' [] projectTree
        (initialWorld logTable Map.empty)))) = []"
proof -
  let ?w = "initialWorld logTable Map.empty"
  have c: "clean cleanCheckConfig" "check cleanCheckConfig"
    by (simp_all add: cleanCheckConfig_def)
  have s: "created (summary ?w) = []"
    by (simp add: initialWorld_def emptySummary_def)
  have k: "removed (summary (snd (snd (walkDirectory cleanCheckConfig ''proj'' [] projectTree ?w))))
             = [''src/.gitkeep'']"
    "console (snd (snd (walkDirectory cleanCheckConfig ''proj'' [] projectTree ?w))) = []"
    by code_simp+
  note t = clean_takes_precedence_over_check [OF c, where rootName = "''proj''" and comps = "[]"
      and node = projectTree and w = ?w and dirEntries = "[]" and dir = "[]" and rules = "[]"
      and wr = True and h = False and es = "[]" and v = ?w]
  from t have "walkDirectory cleanCheckConfig ''proj'' [] projectTree ?w =
      walkDirectory (cleanCheckConfig\<lparr> check := False \<rparr>) ''proj'' [] projectTree ?w"
    by (rule conjunct1)
  then have e: "fst (snd (walkDirectory cleanCheckConfig ''proj'' [] projectTree ?w)) =
      fst (snd (walkDirectory (cleanCheckConfig\<lparr> check := False \<rparr>) ''proj'' [] projectTree ?w))"
    by simp
  from t have "created (summary (snd (snd (walkDirectory cleanCheckConfig ''proj'' [] projectTree ?w))))
      = created (summary ?w)"
    by blast
  from this s have d: "created (summary (snd (snd (walkDirectory cleanCheckConfig ''proj'' [] projectTree ?w)))) = []"
    by (rule trans)
  from c e d k show ?thesis by blast
qed

section \<open>Normal mode: the second run\<close>







































end
